theory Spec2Isabelle
  imports Main "HOL-Library.Word" "HOL-Library.Signed_Division"
begin

unbundle bit_operations_syntax

chapter \<open>The secondary storage and byte-order utilities of ccache\<close>

section \<open>Definitions\<close>

subsection \<open>Util: integers in big endian order\<close>

text \<open>
  \<^verbatim>\<open>Util::int_to_big_endian\<close> and \<^verbatim>\<open>Util::big_endian_to_int\<close> are templates over an
  integer type \<open>T\<close>. \<open>T\<close> is modelled by its bit pattern, a word of \<open>LENGTH('a)\<close> bits, and
  by its signedness (a flag): a signed and an unsigned type of one width differ only in
  what \<^verbatim>\<open>value >>= 8\<close> shifts in. The buffer is the list of bytes that the pointer
  \<^verbatim>\<open>buffer\<close> points to; the source neither knows nor checks its size, so that a buffer
  shorter than \<open>sizeof(T)\<close> is undefined behaviour there and excluded by hypothesis here.
\<close>

type_synonym uint8_t = "8 word"

text \<open>\<^verbatim>\<open>sizeof(T)\<close>, in bytes. The argument only carries the type.\<close>

definition sizeof :: "'a::len word \<Rightarrow> nat" where
  "sizeof value = LENGTH('a) div 8"

text \<open>\<^verbatim>\<open>value >>= 8\<close>: arithmetic for a signed \<open>T\<close>, logical for an unsigned one.\<close>

definition shift_right_8 :: "bool \<Rightarrow> 'a::len word \<Rightarrow> 'a word" where
  "shift_right_8 is_signed value = (if is_signed then signed_drop_bit 8 value else drop_bit 8 value)"

text \<open>
  One iteration of \<^verbatim>\<open>for (size_t i = 0; i < sizeof(T); ++i)\<close> in \<^verbatim>\<open>int_to_big_endian\<close>:
  \<^verbatim>\<open>buffer[sizeof(T) - i - 1] = value & 0xFF; value >>= 8;\<close>
\<close>

definition int_to_big_endian_step ::
  "bool \<Rightarrow> nat \<Rightarrow> nat \<Rightarrow> 'a::len word \<times> uint8_t list \<Rightarrow> 'a word \<times> uint8_t list" where
  "int_to_big_endian_step is_signed n i vb =
     (case vb of (value, buffer) \<Rightarrow>
        (shift_right_8 is_signed value, buffer[n - i - 1 := ucast (value AND 0xFF)]))"

text \<open>
  The template, and its two specialisations for \<^verbatim>\<open>uint8_t\<close> and \<^verbatim>\<open>int8_t\<close>
  (\<^verbatim>\<open>buffer[0] = value\<close>).
\<close>

definition int_to_big_endian :: "bool \<Rightarrow> 'a::len word \<Rightarrow> uint8_t list \<Rightarrow> uint8_t list" where
  "int_to_big_endian is_signed value buffer =
     (if LENGTH('a) = 8 then buffer[0 := ucast value]
      else snd (fold (int_to_big_endian_step is_signed (sizeof value)) [0..<sizeof value] (value, buffer)))"

text \<open>
  One iteration of the loop of \<^verbatim>\<open>big_endian_to_int\<close>:
  \<^verbatim>\<open>value <<= 8; value |= buffer[i];\<close>
\<close>

definition big_endian_to_int_step :: "uint8_t list \<Rightarrow> nat \<Rightarrow> 'a::len word \<Rightarrow> 'a word" where
  "big_endian_to_int_step buffer i value = push_bit 8 value OR ucast (buffer ! i)"

text \<open>
  The template (\<^verbatim>\<open>value = 0\<close>, then the loop) and its specialisations for the 8-bit
  types (\<^verbatim>\<open>value = buffer[0]\<close>).
\<close>

definition big_endian_to_int :: "uint8_t list \<Rightarrow> 'a::len word" where
  "big_endian_to_int buffer =
     (if LENGTH('a) = 8 then ucast (buffer ! 0)
      else fold (big_endian_to_int_step buffer) [0..<sizeof (0 :: 'a word)] 0)"

subsection \<open>Failures of a call\<close>

text \<open>
  A call of the C++ code may end without returning: an exception of the standard library
  leaves the function, a failed \<^verbatim>\<open>ASSERT\<close> aborts the process, and a read through a
  null pointer is undefined behaviour. Every function below that can end so returns
  \<open>Inl\<close> of the failure, and \<open>Inr\<close> of its result otherwise.
\<close>

datatype failure =
    std_invalid_argument
  | std_out_of_range
  | failed_assertion
  | null_pointer_dereference

subsection \<open>The standard library: std::stoi\<close>

text \<open>
  \<^verbatim>\<open>std::stoi(str)\<close> in base 10, as the C++ standard describes it: leading white space is
  skipped, an optional sign and the longest run of decimal digits are read, and what
  follows the digits is ignored. It throws \<^verbatim>\<open>std::invalid_argument\<close> when there is no
  digit and \<^verbatim>\<open>std::out_of_range\<close> when the number does not fit an \<^verbatim>\<open>int\<close> (32 bits).
\<close>

definition isspace :: "char \<Rightarrow> bool" where
  "isspace c = (c \<in> set [CHR '' '', CHR 0x09, CHR 0x0A, CHR 0x0B, CHR 0x0C, CHR 0x0D])"

definition isdigit :: "char \<Rightarrow> bool" where
  "isdigit c = (48 \<le> (of_char c :: nat) \<and> (of_char c :: nat) \<le> 57)"

definition stoi :: "string \<Rightarrow> failure + int" where
  "stoi str =
     (let s = dropWhile isspace str;
          negative = (case s of c # _ \<Rightarrow> c = CHR ''-'' | [] \<Rightarrow> False);
          has_sign = (case s of c # _ \<Rightarrow> c = CHR ''-'' \<or> c = CHR ''+'' | [] \<Rightarrow> False);
          digits = takeWhile isdigit (if has_sign then tl s else s);
          magnitude = foldl (\<lambda>n c. 10 * n + (int (of_char c) - 48)) 0 digits;
          v = (if negative then - magnitude else magnitude)
      in if digits = [] then Inl std_invalid_argument
         else if v < - 2147483648 \<or> 2147483647 < v then Inl std_out_of_range
         else Inr v)"

subsection \<open>RedisStorage: timeouts and attributes\<close>

record timeval =
  tv_sec :: int
  tv_usec :: int

text \<open>
  \<^verbatim>\<open>milliseconds_to_timeval\<close>: \<^verbatim>\<open>int ms = std::stoi(msec); tv.tv_sec = ms / 1000;
  tv.tv_usec = (ms % 1000) * 1000;\<close> with the division of C++, which truncates towards zero
  (\<open>sdiv\<close> and \<open>smod\<close>).
\<close>

definition milliseconds_to_timeval :: "string \<Rightarrow> failure + timeval" where
  "milliseconds_to_timeval msec =
     (case stoi msec of
        Inl e \<Rightarrow> Inl e
      | Inr ms \<Rightarrow> Inr \<lparr>tv_sec = ms sdiv 1000, tv_usec = (ms smod 1000) * 1000\<rparr>)"

text \<open>\<^verbatim>\<open>AttributeMap\<close>: a map from attribute names to values.\<close>

type_synonym AttributeMap = "string \<rightharpoonup> string"

text \<open>
  The four parsers of the attributes. Each looks up one name (\<^verbatim>\<open>attributes.find\<close>) and
  nothing else; the two timeouts convert the value they find.
\<close>

definition parse_connect_timeout :: "AttributeMap \<Rightarrow> failure + timeval option" where
  "parse_connect_timeout attributes =
     (case attributes ''connect-timeout'' of
        None \<Rightarrow> Inr None
      | Some msec \<Rightarrow>
          (case milliseconds_to_timeval msec of Inl e \<Rightarrow> Inl e | Inr tv \<Rightarrow> Inr (Some tv)))"

definition parse_operation_timeout :: "AttributeMap \<Rightarrow> failure + timeval option" where
  "parse_operation_timeout attributes =
     (case attributes ''operation-timeout'' of
        None \<Rightarrow> Inr None
      | Some msec \<Rightarrow>
          (case milliseconds_to_timeval msec of Inl e \<Rightarrow> Inl e | Inr tv \<Rightarrow> Inr (Some tv)))"

definition parse_username :: "AttributeMap \<Rightarrow> string option" where
  "parse_username attributes = attributes ''username''"

definition parse_password :: "AttributeMap \<Rightarrow> string option" where
  "parse_password attributes = attributes ''password''"

subsection \<open>RedisStorage: the hiredis library and the environment\<close>

text \<open>
  What the code reads of a \<^verbatim>\<open>redisReply\<close>: its \<^verbatim>\<open>type\<close> (the field \<open>rtype\<close> here), its
  \<^verbatim>\<open>integer\<close> (a \<^verbatim>\<open>long long\<close>) and the \<^verbatim>\<open>len\<close> bytes at \<^verbatim>\<open>str\<close>. A null reply is
  \<open>None\<close>. Of a \<^verbatim>\<open>redisContext\<close> the code reads \<^verbatim>\<open>err\<close> (the other fields only in log
  messages); a null context is \<open>None\<close>.
\<close>

datatype reply_type =
    REDIS_REPLY_STRING
  | REDIS_REPLY_ARRAY
  | REDIS_REPLY_INTEGER
  | REDIS_REPLY_NIL
  | REDIS_REPLY_STATUS
  | REDIS_REPLY_ERROR

record redisReply =
  rtype :: reply_type
  integer :: "64 word"
  str :: string

record redisContext =
  err :: int

text \<open>
  The commands that the code formats for \<^verbatim>\<open>redisCommand\<close>: \<^verbatim>\<open>AUTH %s %s\<close> or
  \<^verbatim>\<open>AUTH %s\<close> (with or without a user name), \<^verbatim>\<open>GET %s\<close>, \<^verbatim>\<open>EXISTS %s\<close>,
  \<^verbatim>\<open>SET %s %b\<close> and \<^verbatim>\<open>DEL %s\<close>.
\<close>

datatype command =
    AUTH "string option" string
  | GET string
  | EXISTS string
  | SET string string
  | DEL string

text \<open>The calls into the library that change or use the connection.\<close>

datatype call =
    redisConnect string int
  | redisConnectWithTimeout string int timeval
  | redisConnectUnix string
  | redisConnectUnixWithTimeout string timeval
  | redisReconnect
  | redisFree
  | redisSetTimeout timeval
  | redisCommand command

text \<open>
  The library and the server behind it are not part of the program. They are a parameter
  of every operation: what a call returns, as a function of the history of calls so far
  (the call itself is the last element). The operations take the history and return it
  extended by the calls they made, so that a theorem can say which commands an operation
  sent. The result of \<^verbatim>\<open>redisSetTimeout\<close> only goes into a log message and is left out.
  The macro \<^verbatim>\<open>LOG\<close> (\<^verbatim>\<open>Logging.hpp\<close>) is not among the sources either; whether it
  evaluates its arguments, as it does when logging is enabled, is the last parameter.
\<close>

record environment =
  connect_result :: "call list \<Rightarrow> redisContext option"
  reconnect_result :: "call list \<Rightarrow> int"
  command_reply :: "call list \<Rightarrow> redisReply option"
  logging_enabled :: bool

definition REDIS_OK :: int where
  "REDIS_OK = 0"

subsection \<open>RedisStorage: the object and its construction\<close>

record RedisStorage =
  m_url :: string
  m_connect_timeout :: "timeval option"
  m_operation_timeout :: "timeval option"
  m_username :: "string option"
  m_password :: "string option"
  m_context :: "redisContext option"
  m_connected :: bool
  m_invalid :: bool

text \<open>
  The constructor: the member initialisers in their order, then the body, which sets
  \<^verbatim>\<open>m_context = nullptr; m_connected = false; m_invalid = false;\<close>. It reads the URL
  and the attributes no further than this.
\<close>

definition RedisStorage_new :: "string \<Rightarrow> AttributeMap \<Rightarrow> failure + RedisStorage" where
  "RedisStorage_new url attributes =
     (case parse_connect_timeout attributes of
        Inl e \<Rightarrow> Inl e
      | Inr connect_timeout \<Rightarrow>
          (case parse_operation_timeout attributes of
             Inl e \<Rightarrow> Inl e
           | Inr operation_timeout \<Rightarrow>
               Inr \<lparr>m_url = url,
                    m_connect_timeout = connect_timeout,
                    m_operation_timeout = operation_timeout,
                    m_username = parse_username attributes,
                    m_password = parse_password attributes,
                    m_context = None,
                    m_connected = False,
                    m_invalid = False\<rparr>))"

subsection \<open>RedisStorage::connect and disconnect\<close>

text \<open>\<^verbatim>\<open>Util::starts_with(string, prefix)\<close>.\<close>

definition starts_with :: "string \<Rightarrow> string \<Rightarrow> bool" where
  "starts_with string prefix = (take (length prefix) string = prefix)"

text \<open>
  The part of the URL after the prefix, split into \<open>(host, port, sock)\<close>:
  \<^verbatim>\<open>std::find(suffix.rbegin(), suffix.rend(), ':').base()\<close> is the position after the last
  colon, or \<^verbatim>\<open>suffix.begin()\<close> when there is none. Without a colon the suffix is a socket
  path when \<^verbatim>\<open>suffix[0] == '/'\<close> and a host otherwise (of an empty suffix \<^verbatim>\<open>suffix[0]\<close>
  is the terminating null character, so it is an empty host); with one, the host is what
  stands before the last colon and the port what stands after it.
\<close>

definition split_url_suffix :: "string \<Rightarrow> string \<times> string \<times> string" where
  "split_url_suffix suffix =
     (if CHR '':'' \<in> set suffix
      then (rev (tl (dropWhile (\<lambda>c. c \<noteq> CHR '':'') (rev suffix))),
            rev (takeWhile (\<lambda>c. c \<noteq> CHR '':'') (rev suffix)),
            [])
      else (case suffix of
              c # _ \<Rightarrow> if c = CHR ''/'' then ([], [], suffix) else (suffix, [], [])
            | [] \<Rightarrow> (suffix, [], [])))"

text \<open>
  The end of \<^verbatim>\<open>connect\<close>, from \<^verbatim>\<open>if (!m_context || m_context->err)\<close> on. With a null
  context the log message of that branch reads \<^verbatim>\<open>m_context->errstr\<close>, if the macro
  evaluates it. Otherwise the
  object is marked connected \<^emph>\<open>before\<close> the operation timeout is set and the password is
  sent, and a null or error reply to \<^verbatim>\<open>AUTH\<close> sets \<^verbatim>\<open>m_invalid\<close> and returns false.
\<close>

definition connect_established ::
  "environment \<Rightarrow> RedisStorage \<Rightarrow> call list \<Rightarrow> failure + bool \<times> RedisStorage \<times> call list" where
  "connect_established env s log =
     (case m_context s of
        None \<Rightarrow>
          (if logging_enabled env then Inl null_pointer_dereference
           else Inr (False, s\<lparr>m_invalid := True\<rparr>, log))
      | Some context \<Rightarrow>
          (if err context \<noteq> 0 then Inr (False, s\<lparr>m_invalid := True\<rparr>, log)
           else
             (let s1 = s\<lparr>m_connected := True\<rparr>;
                  log1 = (case m_operation_timeout s1 of
                            Some tv \<Rightarrow> log @ [redisSetTimeout tv]
                          | None \<Rightarrow> log)
              in (case m_password s1 of
                    None \<Rightarrow> Inr (True, s1, log1)
                  | Some password \<Rightarrow>
                      (let log2 = log1 @ [redisCommand (AUTH (m_username s1) password)];
                           s2 = (case command_reply env log2 of
                                   None \<Rightarrow> s1\<lparr>m_invalid := True\<rparr>
                                 | Some reply \<Rightarrow>
                                     (if rtype reply = REDIS_REPLY_ERROR
                                      then s1\<lparr>m_invalid := True\<rparr>
                                      else s1))
                       in if m_invalid s2 then Inr (False, s2, log2)
                          else Inr (True, s2, log2))))))"

text \<open>
  The middle of \<^verbatim>\<open>connect\<close>: the assertion on the prefix, the split of the URL, and the
  new connection to a host (port 6379 unless the URL names one, which \<^verbatim>\<open>std::stoi\<close>
  converts) or to a socket path, with or without the connect timeout. A URL with neither
  host nor socket path sets \<^verbatim>\<open>m_invalid\<close>.
\<close>

definition connect_new ::
  "environment \<Rightarrow> RedisStorage \<Rightarrow> call list \<Rightarrow> failure + bool \<times> RedisStorage \<times> call list" where
  "connect_new env s log =
     (if \<not> starts_with (m_url s) ''redis://'' then Inl failed_assertion
      else
        (case split_url_suffix (drop (length ''redis://'') (m_url s)) of
           (host, port, sock) \<Rightarrow>
             (if host \<noteq> [] then
                (case (if port = [] then Inr 6379 else stoi port) of
                   Inl e \<Rightarrow> Inl e
                 | Inr p \<Rightarrow>
                     (let log1 = log @ [case m_connect_timeout s of
                                          Some tv \<Rightarrow> redisConnectWithTimeout host p tv
                                        | None \<Rightarrow> redisConnect host p]
                      in connect_established env
                           (s\<lparr>m_context := connect_result env log1\<rparr>) log1))
              else if sock \<noteq> [] then
                (let log1 = log @ [case m_connect_timeout s of
                                     Some tv \<Rightarrow> redisConnectUnixWithTimeout sock tv
                                   | None \<Rightarrow> redisConnectUnix sock]
                 in connect_established env
                      (s\<lparr>m_context := connect_result env log1\<rparr>) log1)
              else Inr (False, s\<lparr>m_invalid := True\<rparr>, log))))"

text \<open>
  \<^verbatim>\<open>RedisStorage::connect\<close>: the two early returns, \<^verbatim>\<open>m_connected\<close> first and
  \<^verbatim>\<open>m_invalid\<close> second, then the reconnect of an existing context, and after a failed
  reconnect (the context is freed) or without a context the new connection.
\<close>

definition connect ::
  "environment \<Rightarrow> RedisStorage \<Rightarrow> call list \<Rightarrow> failure + bool \<times> RedisStorage \<times> call list" where
  "connect env s log =
     (if m_connected s then Inr (True, s, log)
      else if m_invalid s then Inr (False, s, log)
      else
        (case m_context s of
           Some context \<Rightarrow>
             (let log1 = log @ [redisReconnect]
              in if reconnect_result env log1 = REDIS_OK
                 then Inr (True, s\<lparr>m_connected := True\<rparr>, log1)
                 else connect_new env (s\<lparr>m_context := None\<rparr>) (log1 @ [redisFree]))
         | None \<Rightarrow> connect_new env s log))"

text \<open>\<^verbatim>\<open>RedisStorage::disconnect\<close>.\<close>

definition disconnect :: "RedisStorage \<Rightarrow> RedisStorage" where
  "disconnect s = (if m_connected s then s\<lparr>m_connected := False\<rparr> else s)"

subsection \<open>RedisStorage: get, put and remove\<close>

text \<open>
  \<^verbatim>\<open>SecondaryStorage::Error\<close> and the result type \<^verbatim>\<open>nonstd::expected<T, Error>\<close>: either
  \<^verbatim>\<open>make_unexpected(Error::error)\<close> or a value. For \<open>get\<close> the value is an optional
  string: the value found, or \<^verbatim>\<open>nullopt\<close> for a key that is not there.
\<close>

datatype Error = error

datatype 'a expected = make_unexpected Error | expected 'a

text \<open>
  \<^verbatim>\<open>get_key_string\<close>: \<^verbatim>\<open>FMT("{}:{}", prefix, digest.to_string())\<close> with the prefix
  \<^verbatim>\<open>ccache\<close>. The class \<^verbatim>\<open>Digest\<close> and its \<^verbatim>\<open>to_string\<close> are not among the sources:
  the digest is a type parameter and \<open>to_string\<close> a parameter of the operations.
\<close>

definition get_key_string :: "('d \<Rightarrow> string) \<Rightarrow> 'd \<Rightarrow> string" where
  "get_key_string to_string digest = ''ccache'' @ '':'' @ to_string digest"

text \<open>
  \<^verbatim>\<open>RedisStorage::get\<close>. The local \<^verbatim>\<open>bool missing;\<close> has no initialiser and is assigned
  only for a nil reply. On every other path that reaches \<^verbatim>\<open>else if (missing)\<close> its value
  is indeterminate: the parameter \<open>indeterminate\<close> is that value.
\<close>

definition get ::
  "environment \<Rightarrow> ('d \<Rightarrow> string) \<Rightarrow> bool \<Rightarrow> 'd \<Rightarrow> RedisStorage \<Rightarrow> call list \<Rightarrow>
     failure + string option expected \<times> RedisStorage \<times> call list" where
  "get env to_string indeterminate digest s log =
     (case connect env s log of
        Inl e \<Rightarrow> Inl e
      | Inr (ok, s1, log1) \<Rightarrow>
          (if \<not> ok then Inr (make_unexpected error, s1, log1)
           else
             (let key = get_key_string to_string digest;
                  log2 = log1 @ [redisCommand (GET key)];
                  (found, missing, value) =
                    (case command_reply env log2 of
                       None \<Rightarrow> (False, indeterminate, [])
                     | Some reply \<Rightarrow>
                         (if rtype reply = REDIS_REPLY_ERROR then (False, indeterminate, [])
                          else if rtype reply = REDIS_REPLY_STRING
                          then (True, indeterminate, str reply)
                          else if rtype reply = REDIS_REPLY_NIL then (False, True, [])
                          else (False, indeterminate, [])))
              in if found then Inr (expected (Some value), s1, log2)
                 else if missing then Inr (expected None, s1, log2)
                 else Inr (make_unexpected error, s1, log2))))"

text \<open>
  \<^verbatim>\<open>RedisStorage::put\<close>. With \<^verbatim>\<open>only_if_missing\<close> it first sends \<^verbatim>\<open>EXISTS\<close>;
  \<^verbatim>\<open>int count = 0\<close> takes the \<^verbatim>\<open>long long\<close> of an integer reply (converted to 32 bits)
  and stays 0 for every other reply, the null and the error reply included. A positive
  count returns false; otherwise \<^verbatim>\<open>SET\<close> is sent, and only a status reply to it counts
  as stored.
\<close>

definition put ::
  "environment \<Rightarrow> ('d \<Rightarrow> string) \<Rightarrow> 'd \<Rightarrow> string \<Rightarrow> bool \<Rightarrow> RedisStorage \<Rightarrow> call list \<Rightarrow>
     failure + bool expected \<times> RedisStorage \<times> call list" where
  "put env to_string digest value only_if_missing s log =
     (case connect env s log of
        Inl e \<Rightarrow> Inl e
      | Inr (ok, s1, log1) \<Rightarrow>
          (if \<not> ok then Inr (make_unexpected error, s1, log1)
           else
             (let key = get_key_string to_string digest;
                  log2 = (if only_if_missing then log1 @ [redisCommand (EXISTS key)] else log1);
                  count = (if only_if_missing
                           then (case command_reply env log2 of
                                   None \<Rightarrow> 0
                                 | Some reply \<Rightarrow>
                                     (if rtype reply = REDIS_REPLY_ERROR then 0
                                      else if rtype reply = REDIS_REPLY_INTEGER
                                      then (ucast (integer reply) :: 32 word)
                                      else 0))
                           else 0)
              in if only_if_missing \<and> 0 < sint count then Inr (expected False, s1, log2)
                 else
                   (let log3 = log2 @ [redisCommand (SET key value)];
                        stored = (case command_reply env log3 of
                                    None \<Rightarrow> False
                                  | Some reply \<Rightarrow>
                                      (if rtype reply = REDIS_REPLY_ERROR then False
                                       else if rtype reply = REDIS_REPLY_STATUS then True
                                       else False))
                    in if stored then Inr (expected True, s1, log3)
                       else Inr (make_unexpected error, s1, log3)))))"

text \<open>
  \<^verbatim>\<open>RedisStorage::remove\<close>, with the same uninitialised \<^verbatim>\<open>bool missing;\<close> as \<open>get\<close>:
  it is assigned only for an integer reply that is not positive.
\<close>

definition remove ::
  "environment \<Rightarrow> ('d \<Rightarrow> string) \<Rightarrow> bool \<Rightarrow> 'd \<Rightarrow> RedisStorage \<Rightarrow> call list \<Rightarrow>
     failure + bool expected \<times> RedisStorage \<times> call list" where
  "remove env to_string indeterminate digest s log =
     (case connect env s log of
        Inl e \<Rightarrow> Inl e
      | Inr (ok, s1, log1) \<Rightarrow>
          (if \<not> ok then Inr (make_unexpected error, s1, log1)
           else
             (let key = get_key_string to_string digest;
                  log2 = log1 @ [redisCommand (DEL key)];
                  (removed, missing) =
                    (case command_reply env log2 of
                       None \<Rightarrow> (False, indeterminate)
                     | Some reply \<Rightarrow>
                         (if rtype reply = REDIS_REPLY_ERROR then (False, indeterminate)
                          else if rtype reply = REDIS_REPLY_INTEGER
                          then (if 0 < sint (integer reply) then (True, indeterminate)
                                else (False, True))
                          else (False, indeterminate)))
              in if removed then Inr (expected True, s1, log2)
                 else if missing then Inr (expected False, s1, log2)
                 else Inr (make_unexpected error, s1, log2))))"

subsection \<open>RedisStorage: what the commands mean to the backend\<close>

text \<open>
  The contents of a key-value backend that serves a history of calls, from given initial
  contents: \<^verbatim>\<open>SET\<close> stores a value under a key, \<^verbatim>\<open>DEL\<close> removes the key, and no other
  call changes what is stored. This is the meaning the Redis protocol gives the two
  commands; the server itself is not part of the program.
\<close>

fun serve :: "(string \<rightharpoonup> string) \<Rightarrow> call \<Rightarrow> (string \<rightharpoonup> string)" where
  "serve store (redisCommand (SET key value)) = store(key \<mapsto> value)"
| "serve store (redisCommand (DEL key)) = store(key := None)"
| "serve store _ = store"

definition backend_store :: "(string \<rightharpoonup> string) \<Rightarrow> call list \<Rightarrow> (string \<rightharpoonup> string)" where
  "backend_store initial log = foldl serve initial log"

subsection \<open>RedisStorage: concrete instances\<close>

text \<open>
  An environment whose connection attempts all return the same context, whose reply to a
  command depends on the command alone and where logging is enabled, the five kinds of
  reply, and the object that the
  constructor builds without timeouts. They give the theorems concrete inputs.
\<close>

definition scripted_environment :: "redisContext option \<Rightarrow> (command \<Rightarrow> redisReply option) \<Rightarrow> environment" where
  "scripted_environment context replies =
     \<lparr>connect_result = (\<lambda>log. context),
      reconnect_result = (\<lambda>log. REDIS_OK),
      command_reply = (\<lambda>log. case rev log of
                                redisCommand c # _ \<Rightarrow> replies c
                              | _ \<Rightarrow> None),
      logging_enabled = True\<rparr>"

definition string_reply :: "string \<Rightarrow> redisReply" where
  "string_reply s = \<lparr>rtype = REDIS_REPLY_STRING, integer = 0, str = s\<rparr>"

definition status_reply :: "string \<Rightarrow> redisReply" where
  "status_reply s = \<lparr>rtype = REDIS_REPLY_STATUS, integer = 0, str = s\<rparr>"

definition error_reply :: "string \<Rightarrow> redisReply" where
  "error_reply s = \<lparr>rtype = REDIS_REPLY_ERROR, integer = 0, str = s\<rparr>"

definition integer_reply :: "64 word \<Rightarrow> redisReply" where
  "integer_reply n = \<lparr>rtype = REDIS_REPLY_INTEGER, integer = n, str = []\<rparr>"

definition nil_reply :: redisReply where
  "nil_reply = \<lparr>rtype = REDIS_REPLY_NIL, integer = 0, str = []\<rparr>"

definition constructed :: "string \<Rightarrow> string option \<Rightarrow> string option \<Rightarrow> RedisStorage" where
  "constructed url username password =
     \<lparr>m_url = url, m_connect_timeout = None, m_operation_timeout = None,
      m_username = username, m_password = password, m_context = None,
      m_connected = False, m_invalid = False\<rparr>"

subsection \<open>HashState\<close>

text \<open>
  Modelled from the spec: \<^verbatim>\<open>hash.c\<close> (\<^verbatim>\<open>hash_init\<close>, \<^verbatim>\<open>hash_string\<close>, \<^verbatim>\<open>hash_result\<close>,
  \<^verbatim>\<open>hash_reset\<close>, \<^verbatim>\<open>hash_checksum\<close>) is not among the sources; only its tests in
  \<^verbatim>\<open>unittest/test_hash.c\<close> are. The spec describes a HashState as a mutable incremental
  hasher that absorbs raw bytes in any number of calls, whose algorithm is a strategy
  selected at construction, and whose \<open>finalize\<close> returns the digest and does not perturb
  further absorption. The model is the usual shape of such a hasher: the strategy is a
  block size, an initial chaining value, a compression function for one block and a
  finishing function; the state is the chaining value, the absorbed bytes that do not yet
  fill a block, and the number of bytes absorbed (the tests show it at the end of the
  result string). \<open>absorb\<close> compresses every block that is complete and keeps the rest;
  \<open>finalize\<close> finishes a copy and returns the state as it was.
\<close>

text \<open>Modelled from the spec: a Digest, a fixed-length array of bytes.\<close>

type_synonym Digest = "uint8_t list"

text \<open>Modelled from the spec: the pluggable algorithm, a strategy selected at construction.\<close>

record 'c hash_algorithm =
  block_size :: nat
  initial_value :: 'c
  compress :: "'c \<Rightarrow> uint8_t list \<Rightarrow> 'c"
  finish :: "'c \<Rightarrow> uint8_t list \<Rightarrow> nat \<Rightarrow> Digest"

text \<open>Modelled from the spec: the mutable state of the incremental hasher.\<close>

record 'c HashState =
  algorithm :: "'c hash_algorithm"
  chaining_value :: 'c
  pending :: "uint8_t list"
  total_size :: nat

text \<open>
  Modelled from the spec: absorbing raw bytes, here the loop that compresses one block
  after the other as long as a whole block is there, and returns the new chaining value
  and the bytes left over.
\<close>

function absorb_blocks :: "'c hash_algorithm \<Rightarrow> 'c \<Rightarrow> uint8_t list \<Rightarrow> 'c \<times> uint8_t list" where
  "absorb_blocks a c bytes =
     (if 0 < block_size a \<and> block_size a \<le> length bytes
      then absorb_blocks a (compress a c (take (block_size a) bytes)) (drop (block_size a) bytes)
      else (c, bytes))"
  by pat_completeness auto
termination
  by (relation "measure (\<lambda>(a, c, bytes). length bytes)") auto

text \<open>Modelled from the spec: the initial state of a hasher for an algorithm.\<close>

definition hash_init :: "'c hash_algorithm \<Rightarrow> 'c HashState" where
  "hash_init a = \<lparr>algorithm = a, chaining_value = initial_value a, pending = [], total_size = 0\<rparr>"

text \<open>
  Modelled from the spec: \<open>absorb(bytes)\<close>. The new bytes follow the pending ones, the
  complete blocks are compressed, and the size grows by the number of new bytes.
\<close>

definition absorb :: "'c HashState \<Rightarrow> uint8_t list \<Rightarrow> 'c HashState" where
  "absorb h bytes =
     (case absorb_blocks (algorithm h) (chaining_value h) (pending h @ bytes) of
        (c, rest) \<Rightarrow>
          h\<lparr>chaining_value := c, pending := rest, total_size := total_size h + length bytes\<rparr>)"

text \<open>
  Modelled from the spec: \<open>finalize()\<close>. It returns the digest and the state, which it
  leaves as it was (it does not perturb further absorption).
\<close>

definition finalize :: "'c HashState \<Rightarrow> Digest \<times> 'c HashState" where
  "finalize h = (finish (algorithm h) (chaining_value h) (pending h) (total_size h), h)"

section \<open>Theorems\<close>

subsection \<open>Util: integers in big endian order\<close>

lemma shift_right_8_funpow_byte:
  fixes v :: "'a::len word"
  assumes "8 * i + 8 \<le> LENGTH('a)"
  shows "(ucast (((shift_right_8 sg ^^ i) v) AND 0xFF) :: uint8_t) = ucast (drop_bit (8 * i) v)"
proof -
  have it_u: "(drop_bit 8 ^^ k) v = drop_bit (8 * k) v" for k
    by (induction k) (simp_all add: add.commute)
  have it_s: "(signed_drop_bit 8 ^^ k) v = signed_drop_bit (8 * k) v" for k
    by (induction k) (simp_all add: add.commute)
  have m: "(0xFF :: 'a word) = mask 8"
    by (simp add: mask_eq_exp_minus_1)
  show ?thesis
  proof (cases sg)
    case True
    then have "(shift_right_8 sg ^^ i) v = signed_drop_bit (8 * i) v"
      using it_s [of i] by (simp add: shift_right_8_def [abs_def])
    then show ?thesis
      using assms unfolding m
      by (auto intro!: bit_word_eqI simp add: bit_simps split: if_splits)
  next
    case False
    then have "(shift_right_8 sg ^^ i) v = drop_bit (8 * i) v"
      using it_u [of i] by (simp add: shift_right_8_def [abs_def])
    then show ?thesis
      using assms unfolding m
      by (auto intro!: bit_word_eqI simp add: bit_simps)
  qed
qed


lemma int_to_big_endian_loop:
  fixes v :: "'a::len word"
  assumes "k \<le> n" and "n \<le> length buffer"
  shows "fold (int_to_big_endian_step sg n) [0..<k] (v, buffer) =
           ((shift_right_8 sg ^^ k) v,
            map (\<lambda>j. if n - k \<le> j \<and> j < n
                     then ucast ((shift_right_8 sg ^^ (n - 1 - j)) v AND 0xFF)
                     else buffer ! j) [0..<length buffer])"
  using assms(1)
proof (induction k)
  case 0
  show ?case by (auto intro!: nth_equalityI)
next
  case (Suc k)
  then have k: "k < n" and IH: "fold (int_to_big_endian_step sg n) [0..<k] (v, buffer) =
           ((shift_right_8 sg ^^ k) v,
            map (\<lambda>j. if n - k \<le> j \<and> j < n
                     then ucast ((shift_right_8 sg ^^ (n - 1 - j)) v AND 0xFF)
                     else buffer ! j) [0..<length buffer])"
    by simp_all
  have idx: "n - k - 1 < length buffer"
    using k assms(2) by arith
  show ?case
    unfolding upt_Suc_append [OF le0] fold_append comp_def IH
    apply (simp add: int_to_big_endian_step_def)
    apply (rule nth_equalityI)
     apply simp
    using k idx apply (auto simp add: nth_list_update)
    done
qed


lemma big_endian_to_int_loop_bit:
  "bit (fold (big_endian_to_int_step b) [0..<k] (0 :: 'a::len word)) m \<longleftrightarrow>
     m < 8 * k \<and> m < LENGTH('a) \<and> bit (b ! (k - 1 - m div 8)) (m mod 8)"
proof (induction k arbitrary: m)
  case 0
  show ?case by simp
next
  case (Suc k)
  have step: "fold (big_endian_to_int_step b) [0..<Suc k] (0 :: 'a word) =
      push_bit 8 (fold (big_endian_to_int_step b) [0..<k] 0) OR ucast (b ! k)"
    by (simp add: big_endian_to_int_step_def)
  show ?case
  proof (cases "m < 8")
    case True
    then have "m div 8 = 0" "m mod 8 = m" by simp_all
    with True show ?thesis
      unfolding step by (auto simp add: bit_simps)
  next
    case False
    define m' where "m' = m - 8"
    have m: "m = m' + 8"
      using False by (simp add: m'_def)
    have d: "m div 8 = Suc (m' div 8)" "m mod 8 = m' mod 8"
      by (simp_all add: m)
    have nb: "\<not> bit (b ! k) m"
      using False by (auto dest: bit_imp_le_length)
    have "bit (fold (big_endian_to_int_step b) [0..<Suc k] (0 :: 'a word)) m \<longleftrightarrow>
       m < LENGTH('a) \<and> bit (fold (big_endian_to_int_step b) [0..<k] (0 :: 'a word)) m'"
      unfolding step using False nb by (auto simp add: bit_simps m'_def)
    also have "\<dots> \<longleftrightarrow> m < LENGTH('a) \<and> m' < 8 * k \<and> bit (b ! (k - 1 - m' div 8)) (m' mod 8)"
      unfolding Suc.IH using m by auto
    also have "\<dots> \<longleftrightarrow> m < 8 * Suc k \<and> m < LENGTH('a) \<and> bit (b ! (Suc k - 1 - m div 8)) (m mod 8)"
      unfolding d using m by auto
    finally show ?thesis .
  qed
qed


lemma int_to_big_endian_nth:
  fixes v :: "'a::len word"
  assumes len: "8 dvd LENGTH('a)" and buf: "sizeof v \<le> length buffer" and i: "i < sizeof v"
  shows "int_to_big_endian sg v buffer ! i = ucast (drop_bit (8 * (sizeof v - 1 - i)) v)"
proof (cases "LENGTH('a) = 8")
  case True
  then have "sizeof v = 1" by (simp add: sizeof_def)
  with i buf True show ?thesis
    by (cases buffer) (simp_all add: int_to_big_endian_def)
next
  case False
  have n: "LENGTH('a) = 8 * sizeof v"
    using len by (auto simp add: sizeof_def)
  have b: "8 * (sizeof v - 1 - i) + 8 \<le> LENGTH('a)"
    using i unfolding n by arith
  have "int_to_big_endian sg v buffer ! i =
      ucast ((shift_right_8 sg ^^ (sizeof v - 1 - i)) v AND 0xFF)"
    using False i buf
    by (simp add: int_to_big_endian_def int_to_big_endian_loop [OF le_refl buf])
  then show ?thesis
    by (simp only: shift_right_8_funpow_byte [OF b])
qed

lemma length_int_to_big_endian:
  fixes v :: "'a::len word"
  assumes "sizeof v \<le> length buffer"
  shows "length (int_to_big_endian sg v buffer) = length buffer"
  by (simp add: int_to_big_endian_def int_to_big_endian_loop [OF le_refl assms])

lemma big_endian_to_int_bit:
  assumes len: "8 dvd LENGTH('a::len)"
  shows "bit (big_endian_to_int b :: 'a word) m \<longleftrightarrow>
     m < LENGTH('a) \<and> bit (b ! (sizeof (0 :: 'a word) - 1 - m div 8)) (m mod 8)"
proof (cases "LENGTH('a) = 8")
  case True
  then have "sizeof (0 :: 'a word) = 1" by (simp add: sizeof_def)
  with True show ?thesis
    by (auto simp add: big_endian_to_int_def bit_simps)
next
  case False
  have n: "LENGTH('a) = 8 * sizeof (0 :: 'a word)"
    using len by (auto simp add: sizeof_def)
  from False show ?thesis
    unfolding big_endian_to_int_def using n
    by (auto simp add: big_endian_to_int_loop_bit)
qed



text \<open>
  Claim C10. For every fixed-width integer type \<open>T\<close> (a width that is a multiple of 8 bits,
  signed or unsigned) and every value \<open>v\<close> of it, \<open>int_to_big_endian\<close> followed by
  \<open>big_endian_to_int\<close> on a buffer of at least \<open>sizeof(T)\<close> bytes gives \<open>v\<close> back; byte \<open>i\<close>
  of the buffer is byte \<open>sizeof(T) - 1 - i\<close> of \<open>v\<close>, so the most significant byte comes
  first; and reading \<open>sizeof(T)\<close> bytes and writing the value read gives the same bytes
  back, so the two functions are inverse to each other.
\<close>

theorem int_big_endian_round_trip:
  fixes v :: "'a::len word"
  assumes "8 dvd LENGTH('a)" and "sizeof v \<le> length buffer" and "sizeof v \<le> length buffer'"
  shows "big_endian_to_int (int_to_big_endian is_signed v buffer) = v \<and>
         (\<forall>i < sizeof v. int_to_big_endian is_signed v buffer ! i =
                           ucast (drop_bit (8 * (sizeof v - 1 - i)) v)) \<and>
         take (sizeof v) (int_to_big_endian is_signed (big_endian_to_int buffer :: 'a word) buffer') =
           take (sizeof v) buffer"
proof (intro conjI allI impI)
  have n: "LENGTH('a) = 8 * sizeof v" and s0: "sizeof (0 :: 'a word) = sizeof v"
    using assms(1) by (auto simp add: sizeof_def)
  show "big_endian_to_int (int_to_big_endian is_signed v buffer) = v"
  proof (rule bit_word_eqI)
    fix m assume m: "m < LENGTH('a)"
    define i where "i = sizeof v - 1 - m div 8"
    have i: "i < sizeof v" and le: "m div 8 \<le> sizeof v - 1"
      using m unfolding n i_def by auto
    have inv_i: "sizeof v - 1 - i = m div 8"
      using le unfolding i_def by arith
    have "bit (big_endian_to_int (int_to_big_endian is_signed v buffer) :: 'a word) m \<longleftrightarrow>
        bit (int_to_big_endian is_signed v buffer ! i) (m mod 8)"
      using m by (simp only: big_endian_to_int_bit [OF assms(1)] s0 i_def simp_thms)
    also have "\<dots> \<longleftrightarrow> bit (ucast (drop_bit (8 * (m div 8)) v) :: uint8_t) (m mod 8)"
      by (simp only: int_to_big_endian_nth [OF assms(1) assms(2) i] inv_i)
    also have "\<dots> \<longleftrightarrow> bit v m"
      by (simp add: bit_simps)
    finally show "bit (big_endian_to_int (int_to_big_endian is_signed v buffer) :: 'a word) m = bit v m" .
  qed
  show "int_to_big_endian is_signed v buffer ! i = ucast (drop_bit (8 * (sizeof v - 1 - i)) v)"
    if "i < sizeof v" for i
    using that by (rule int_to_big_endian_nth [OF assms(1) assms(2)])
  show "take (sizeof v) (int_to_big_endian is_signed (big_endian_to_int buffer :: 'a word) buffer') =
           take (sizeof v) buffer"
  proof (rule nth_equalityI)
    show "length (take (sizeof v) (int_to_big_endian is_signed (big_endian_to_int buffer :: 'a word) buffer')) =
        length (take (sizeof v) buffer)"
      using assms(2) \<open>sizeof v \<le> length buffer'\<close> s0
      by (simp add: length_int_to_big_endian sizeof_def)
  next
    fix i
    assume "i < length (take (sizeof v) (int_to_big_endian is_signed (big_endian_to_int buffer :: 'a word) buffer'))"
    then have i: "i < sizeof v" by simp
    have b': "sizeof (big_endian_to_int buffer :: 'a word) \<le> length buffer'"
      and i': "i < sizeof (big_endian_to_int buffer :: 'a word)"
      using \<open>sizeof v \<le> length buffer'\<close> i by (simp_all add: sizeof_def)
    have sz: "sizeof (big_endian_to_int buffer :: 'a word) = sizeof v"
      by (simp add: sizeof_def)
    have "int_to_big_endian is_signed (big_endian_to_int buffer :: 'a word) buffer' ! i = buffer ! i"
    proof (rule bit_word_eqI)
      fix j assume j: "j < LENGTH(8)"
      then have j8: "j < 8" by simp
      define m where "m = 8 * (sizeof v - 1 - i) + j"
      have a: "m div 8 = sizeof v - 1 - i" and b: "m mod 8 = j"
        using j8 by (simp_all add: m_def)
      have c: "sizeof v - 1 - (sizeof v - 1 - i) = i"
        using i by arith
      have d: "m < LENGTH('a)"
        unfolding n m_def using i j8 by arith
      have "bit (int_to_big_endian is_signed (big_endian_to_int buffer :: 'a word) buffer' ! i) j \<longleftrightarrow>
          bit (ucast (drop_bit (8 * (sizeof v - 1 - i)) (big_endian_to_int buffer :: 'a word)) :: uint8_t) j"
        by (simp only: int_to_big_endian_nth [OF assms(1) b' i'] sz)
      also have "\<dots> \<longleftrightarrow> bit (big_endian_to_int buffer :: 'a word) m"
        using j8 by (simp add: bit_simps m_def)
      also have "\<dots> \<longleftrightarrow> bit (buffer ! i) j"
        using d by (simp only: big_endian_to_int_bit [OF assms(1)] s0 a b c simp_thms)
      finally show "bit (int_to_big_endian is_signed (big_endian_to_int buffer :: 'a word) buffer' ! i) j =
          bit (buffer ! i) j" .
    qed
    then show "take (sizeof v) (int_to_big_endian is_signed (big_endian_to_int buffer :: 'a word) buffer') ! i =
        take (sizeof v) buffer ! i"
      using i by simp
  qed
qed

theorem int_big_endian_round_trip_witness:
  "8 dvd LENGTH(32) \<and> sizeof (0x12345678 :: 32 word) \<le> length [0, 0, 0, 0, 7 :: uint8_t] \<and>
   big_endian_to_int (int_to_big_endian False (0x12345678 :: 32 word) [0, 0, 0, 0, 7]) = (0x12345678 :: 32 word) \<and>
   int_to_big_endian False (0x12345678 :: 32 word) [0, 0, 0, 0, 7] ! 0 = 0x12"
  using int_big_endian_round_trip [of "0x12345678 :: 32 word" "[0, 0, 0, 0, 7]" "[0, 0, 0, 0, 7]" False]
  by (simp add: sizeof_def)


subsection \<open>RedisStorage: the key and the commands sent\<close>

lemmas connect_simps =
  connect_def connect_new_def connect_established_def starts_with_def split_url_suffix_def
  scripted_environment_def REDIS_OK_def Let_def

lemmas reply_simps =
  string_reply_def status_reply_def error_reply_def integer_reply_def nil_reply_def

lemmas new_simps =
  RedisStorage_new_def parse_connect_timeout_def parse_operation_timeout_def
  parse_username_def parse_password_def

lemma get_log:
  assumes "connect env s log = Inr (True, s1, log1)"
  shows "\<exists>r. get env to_string i d s log =
           Inr (r, s1, log1 @ [redisCommand (GET (get_key_string to_string d))])"
  using assms by (simp add: get_def Let_def split: option.split prod.split)

lemma remove_log:
  assumes "connect env s log = Inr (True, s1, log1)"
  shows "\<exists>r. remove env to_string i d s log =
           Inr (r, s1, log1 @ [redisCommand (DEL (get_key_string to_string d))])"
  using assms by (simp add: remove_def Let_def split: option.split prod.split)

lemma put_log:
  assumes "connect env s log = Inr (True, s1, log1)"
  shows "\<exists>r. put env to_string d v False s log =
           Inr (r, s1, log1 @ [redisCommand (SET (get_key_string to_string d) v)])"
    and "\<exists>r cmds. put env to_string d v True s log =
           Inr (r, s1, log1 @ redisCommand (EXISTS (get_key_string to_string d)) # cmds) \<and>
           (cmds = [] \<or> cmds = [redisCommand (SET (get_key_string to_string d) v)])"
  using assms by (simp_all add: put_def Let_def split: option.split)

text \<open>
  Claim C9. For every digest, the key that \<open>get\<close>, \<open>put\<close> and \<open>remove\<close> send to the backend
  is the namespace \<^verbatim>\<open>ccache\<close>, a colon and the string form of the digest, and it is the
  same key in all three: once \<open>connect\<close> has returned true, \<open>get\<close> sends exactly
  \<^verbatim>\<open>GET key\<close>, \<open>remove\<close> exactly \<^verbatim>\<open>DEL key\<close>, and \<open>put\<close> exactly \<^verbatim>\<open>SET key value\<close>,
  preceded by \<^verbatim>\<open>EXISTS key\<close> when \<^verbatim>\<open>only_if_missing\<close> is set (and then possibly without
  the \<^verbatim>\<open>SET\<close>). The string form of a digest is the parameter \<open>to_string\<close>.
\<close>

theorem operations_send_namespaced_key:
  assumes "connect env s log = Inr (True, s1, log1)"
    and "key = get_key_string to_string digest"
  shows "key = ''ccache'' @ '':'' @ to_string digest \<and>
    (\<exists>r. get env to_string i digest s log = Inr (r, s1, log1 @ [redisCommand (GET key)])) \<and>
    (\<exists>r. remove env to_string i digest s log = Inr (r, s1, log1 @ [redisCommand (DEL key)])) \<and>
    (\<exists>r. put env to_string digest value False s log =
            Inr (r, s1, log1 @ [redisCommand (SET key value)])) \<and>
    (\<exists>r cmds. put env to_string digest value True s log =
            Inr (r, s1, log1 @ redisCommand (EXISTS key) # cmds) \<and>
            (cmds = [] \<or> cmds = [redisCommand (SET key value)]))"
  unfolding assms(2)
  by (intro conjI get_log [OF assms(1)] remove_log [OF assms(1)] put_log [OF assms(1)])
    (simp add: get_key_string_def)

theorem operations_send_namespaced_key_witness:
  "connect (scripted_environment (Some \<lparr>err = 0\<rparr>) (\<lambda>c. Some nil_reply))
     (constructed ''redis://localhost'' None None) [] =
     Inr (True,
          (constructed ''redis://localhost'' None None)
            \<lparr>m_context := Some \<lparr>err = 0\<rparr>, m_connected := True\<rparr>,
          [redisConnect ''localhost'' 6379]) \<and>
   get_key_string (\<lambda>d. d) ''0123'' = ''ccache:0123'' \<and>
   (\<exists>r. get (scripted_environment (Some \<lparr>err = 0\<rparr>) (\<lambda>c. Some nil_reply))
          (\<lambda>d. d) False ''0123'' (constructed ''redis://localhost'' None None) [] =
        Inr (r,
             (constructed ''redis://localhost'' None None)
               \<lparr>m_context := Some \<lparr>err = 0\<rparr>, m_connected := True\<rparr>,
             [redisConnect ''localhost'' 6379, redisCommand (GET ''ccache:0123'')]))"
  using
    operations_send_namespaced_key
      [of "scripted_environment (Some \<lparr>err = 0\<rparr>) (\<lambda>c. Some nil_reply)"
          "constructed ''redis://localhost'' None None" "[]"
          "(constructed ''redis://localhost'' None None)
             \<lparr>m_context := Some \<lparr>err = 0\<rparr>, m_connected := True\<rparr>"
          "[redisConnect ''localhost'' 6379]" "''ccache:0123''" "\<lambda>d. d" "''0123''" False
          "''object''"]
  by (simp add: connect_simps constructed_def get_key_string_def)

subsection \<open>RedisStorage: put with only_if_missing\<close>

lemma sint_ucast_64_32:
  fixes w :: "64 word"
  assumes "- 2147483648 \<le> sint w" and "sint w \<le> 2147483647"
  shows "sint (ucast w :: 32 word) = sint w"
proof -
  have "sint (ucast w :: 32 word) = signed_take_bit 31 (uint w)"
    by (simp add: signed_ucast_eq)
  also have "\<dots> = signed_take_bit 31 (signed_take_bit 63 (uint w))"
    by simp
  also have "\<dots> = signed_take_bit 31 (sint w)"
    by (simp add: sint_uint)
  also have "\<dots> = sint w"
    using assms by (simp add: signed_take_bit_int_eq_self)
  finally show ?thesis .
qed

lemma backend_store_append:
  "backend_store st (log @ [c]) = serve (backend_store st log) c"
  by (simp add: backend_store_def)

text \<open>
  Claim C6. Once \<open>connect\<close> has returned true: a \<open>put\<close> with \<^verbatim>\<open>only_if_missing\<close> on a key
  that the backend reports as present (an integer reply to \<^verbatim>\<open>EXISTS\<close> that is positive
  and fits the \<^verbatim>\<open>int\<close> it is assigned to; Redis answers 1) returns false, sends no
  command but the \<^verbatim>\<open>EXISTS\<close>, and so leaves what the backend stores unchanged. On a key
  reported absent (the reply 0), and without \<^verbatim>\<open>only_if_missing\<close>, a \<open>put\<close> whose \<^verbatim>\<open>SET\<close>
  is acknowledged by a status reply returns true, and the backend then holds the value
  under the key.
\<close>

theorem put_only_if_missing:
  assumes conn: "connect env s log = Inr (True, s1, log1)"
    and key: "key = get_key_string to_string digest"
  shows
    "(\<forall>reply. command_reply env (log1 @ [redisCommand (EXISTS key)]) = Some reply \<and>
          rtype reply = REDIS_REPLY_INTEGER \<and>
          1 \<le> sint (integer reply) \<and> sint (integer reply) \<le> 2147483647 \<longrightarrow>
        put env to_string digest value True s log =
          Inr (expected False, s1, log1 @ [redisCommand (EXISTS key)]) \<and>
        backend_store st (log1 @ [redisCommand (EXISTS key)]) = backend_store st log1) \<and>
     (\<forall>reply ack. command_reply env (log1 @ [redisCommand (EXISTS key)]) = Some reply \<and>
          rtype reply = REDIS_REPLY_INTEGER \<and> integer reply = 0 \<and>
          command_reply env (log1 @ [redisCommand (EXISTS key), redisCommand (SET key value)]) = Some ack \<and>
          rtype ack = REDIS_REPLY_STATUS \<longrightarrow>
        put env to_string digest value True s log =
          Inr (expected True, s1, log1 @ [redisCommand (EXISTS key), redisCommand (SET key value)]) \<and>
        backend_store st (log1 @ [redisCommand (EXISTS key), redisCommand (SET key value)]) key =
          Some value) \<and>
     (\<forall>ack. command_reply env (log1 @ [redisCommand (SET key value)]) = Some ack \<and>
          rtype ack = REDIS_REPLY_STATUS \<longrightarrow>
        put env to_string digest value False s log =
          Inr (expected True, s1, log1 @ [redisCommand (SET key value)]) \<and>
        backend_store st (log1 @ [redisCommand (SET key value)]) key = Some value)"
proof (intro conjI allI impI)
  fix reply
  assume a: "command_reply env (log1 @ [redisCommand (EXISTS key)]) = Some reply \<and>
          rtype reply = REDIS_REPLY_INTEGER \<and>
          1 \<le> sint (integer reply) \<and> sint (integer reply) \<le> 2147483647"
  then have "sint (ucast (integer reply) :: 32 word) = sint (integer reply)"
    by (intro sint_ucast_64_32) simp_all
  with a conn show "put env to_string digest value True s log =
          Inr (expected False, s1, log1 @ [redisCommand (EXISTS key)])"
    by (simp add: put_def key Let_def)
  show "backend_store st (log1 @ [redisCommand (EXISTS key)]) = backend_store st log1"
    by (simp add: backend_store_append)
next
  fix reply ack
  assume a: "command_reply env (log1 @ [redisCommand (EXISTS key)]) = Some reply \<and>
          rtype reply = REDIS_REPLY_INTEGER \<and> integer reply = 0 \<and>
          command_reply env (log1 @ [redisCommand (EXISTS key), redisCommand (SET key value)]) = Some ack \<and>
          rtype ack = REDIS_REPLY_STATUS"
  with conn show "put env to_string digest value True s log =
          Inr (expected True, s1, log1 @ [redisCommand (EXISTS key), redisCommand (SET key value)])"
    by (simp add: put_def key Let_def)
  show "backend_store st (log1 @ [redisCommand (EXISTS key), redisCommand (SET key value)]) key =
          Some value"
    using backend_store_append [of st "log1 @ [redisCommand (EXISTS key)]" "redisCommand (SET key value)"]
    by simp
next
  fix ack
  assume a: "command_reply env (log1 @ [redisCommand (SET key value)]) = Some ack \<and>
          rtype ack = REDIS_REPLY_STATUS"
  with conn show "put env to_string digest value False s log =
          Inr (expected True, s1, log1 @ [redisCommand (SET key value)])"
    by (simp add: put_def key Let_def)
  show "backend_store st (log1 @ [redisCommand (SET key value)]) key = Some value"
    by (simp add: backend_store_append)
qed

theorem put_only_if_missing_witness:
  "connect (scripted_environment (Some \<lparr>err = 0\<rparr>) (\<lambda>c. Some (integer_reply 1)))
     (constructed ''redis://localhost'' None None) [] =
     Inr (True,
          (constructed ''redis://localhost'' None None)
            \<lparr>m_context := Some \<lparr>err = 0\<rparr>, m_connected := True\<rparr>,
          [redisConnect ''localhost'' 6379]) \<and>
   command_reply (scripted_environment (Some \<lparr>err = 0\<rparr>) (\<lambda>c. Some (integer_reply 1)))
     [redisConnect ''localhost'' 6379, redisCommand (EXISTS ''ccache:0123'')] =
     Some (integer_reply 1) \<and>
   sint (integer (integer_reply 1)) = 1 \<and>
   put (scripted_environment (Some \<lparr>err = 0\<rparr>) (\<lambda>c. Some (integer_reply 1)))
     (\<lambda>d. d) ''0123'' ''object'' True (constructed ''redis://localhost'' None None) [] =
     Inr (expected False,
          (constructed ''redis://localhost'' None None)
            \<lparr>m_context := Some \<lparr>err = 0\<rparr>, m_connected := True\<rparr>,
          [redisConnect ''localhost'' 6379, redisCommand (EXISTS ''ccache:0123'')]) \<and>
   backend_store [''ccache:0123'' \<mapsto> ''old'']
     [redisConnect ''localhost'' 6379, redisCommand (EXISTS ''ccache:0123'')] ''ccache:0123'' =
     Some ''old'' \<and>
   put (scripted_environment (Some \<lparr>err = 0\<rparr>) (\<lambda>c. Some (status_reply ''OK'')))
     (\<lambda>d. d) ''0123'' ''object'' False (constructed ''redis://localhost'' None None) [] =
     Inr (expected True,
          (constructed ''redis://localhost'' None None)
            \<lparr>m_context := Some \<lparr>err = 0\<rparr>, m_connected := True\<rparr>,
          [redisConnect ''localhost'' 6379, redisCommand (SET ''ccache:0123'' ''object'')])"
  using
    put_only_if_missing
      [of "scripted_environment (Some \<lparr>err = 0\<rparr>) (\<lambda>c. Some (integer_reply 1))"
          "constructed ''redis://localhost'' None None" "[]"
          "(constructed ''redis://localhost'' None None)
             \<lparr>m_context := Some \<lparr>err = 0\<rparr>, m_connected := True\<rparr>"
          "[redisConnect ''localhost'' 6379]" "''ccache:0123''" "\<lambda>d. d" "''0123''"
          "''object''" "[''ccache:0123'' \<mapsto> ''old'']"]
    put_only_if_missing
      [of "scripted_environment (Some \<lparr>err = 0\<rparr>) (\<lambda>c. Some (status_reply ''OK''))"
          "constructed ''redis://localhost'' None None" "[]"
          "(constructed ''redis://localhost'' None None)
             \<lparr>m_context := Some \<lparr>err = 0\<rparr>, m_connected := True\<rparr>"
          "[redisConnect ''localhost'' 6379]" "''ccache:0123''" "\<lambda>d. d" "''0123''"
          "''object''" "[''ccache:0123'' \<mapsto> ''old'']"]
  by (simp add: connect_simps constructed_def get_key_string_def reply_simps backend_store_def)

subsection \<open>RedisStorage: the results of the operations\<close>

text \<open>
  What \<open>get\<close> returns for a null reply rests on the uninitialised local alone (and so it
  does for an error reply and for a reply of any other unexpected type, and likewise in
  \<open>remove\<close>): a backend error if the local happens to hold false, not-found if it
  happens to hold true.
\<close>

lemma get_null_reply_uninitialised:
  assumes "connect env s log = Inr (True, s1, log1)"
    and "command_reply env (log1 @ [redisCommand (GET (get_key_string to_string digest))]) = None"
  shows "get env to_string indeterminate digest s log =
           Inr (if indeterminate then expected None else make_unexpected error,
                s1, log1 @ [redisCommand (GET (get_key_string to_string digest))])"
  using assms by (simp add: get_def Let_def)

text \<open>
  Claim C1, as the code has it by design. Every operation returns a backend error when
  \<open>connect\<close> returns false. Otherwise \<open>get\<close> returns the value found for a string reply and
  not-found for a nil reply; \<open>remove\<close> returns true for an integer reply that is positive
  and false (not found) for one that is not; \<open>put\<close> returns false, without sending
  \<^verbatim>\<open>SET\<close>, when \<^verbatim>\<open>only_if_missing\<close> is set and the reply to \<^verbatim>\<open>EXISTS\<close> is a positive
  count, and in every other case sends \<^verbatim>\<open>SET\<close> and returns true for a status reply to
  it and a backend error for any other reply, the null reply and the error reply
  included. A null or error reply to \<^verbatim>\<open>EXISTS\<close> counts as an absent key and is no error
  by itself. What \<open>get\<close> and \<open>remove\<close> return for the replies not named here is left open.
\<close>

theorem operation_results:
  assumes key: "key = get_key_string to_string digest"
  shows
    "(connect env s log = Inr (False, s1, log1) \<longrightarrow>
        get env to_string i digest s log = Inr (make_unexpected error, s1, log1) \<and>
        put env to_string digest value only_if_missing s log = Inr (make_unexpected error, s1, log1) \<and>
        remove env to_string i digest s log = Inr (make_unexpected error, s1, log1)) \<and>
     (connect env s log = Inr (True, s1, log1) \<longrightarrow>
        (\<forall>reply. command_reply env (log1 @ [redisCommand (GET key)]) = Some reply \<and>
            rtype reply = REDIS_REPLY_STRING \<longrightarrow>
          get env to_string i digest s log =
            Inr (expected (Some (str reply)), s1, log1 @ [redisCommand (GET key)])) \<and>
        (\<forall>reply. command_reply env (log1 @ [redisCommand (GET key)]) = Some reply \<and>
            rtype reply = REDIS_REPLY_NIL \<longrightarrow>
          get env to_string i digest s log =
            Inr (expected None, s1, log1 @ [redisCommand (GET key)])) \<and>
        (\<forall>reply. command_reply env (log1 @ [redisCommand (DEL key)]) = Some reply \<and>
            rtype reply = REDIS_REPLY_INTEGER \<longrightarrow>
          remove env to_string i digest s log =
            Inr (expected (0 < sint (integer reply)), s1, log1 @ [redisCommand (DEL key)])) \<and>
        (\<forall>reply. command_reply env (log1 @ [redisCommand (EXISTS key)]) = Some reply \<and>
            rtype reply = REDIS_REPLY_INTEGER \<and> 0 < sint (ucast (integer reply) :: 32 word) \<longrightarrow>
          put env to_string digest value True s log =
            Inr (expected False, s1, log1 @ [redisCommand (EXISTS key)])) \<and>
        (\<forall>log2. (only_if_missing \<and> log2 = log1 @ [redisCommand (EXISTS key)] \<and>
                 (\<nexists>reply. command_reply env log2 = Some reply \<and>
                     rtype reply = REDIS_REPLY_INTEGER \<and>
                     0 < sint (ucast (integer reply) :: 32 word)) \<or>
                 \<not> only_if_missing \<and> log2 = log1) \<longrightarrow>
          put env to_string digest value only_if_missing s log =
            Inr (case command_reply env (log2 @ [redisCommand (SET key value)]) of
                   None \<Rightarrow> make_unexpected error
                 | Some reply \<Rightarrow>
                     if rtype reply = REDIS_REPLY_STATUS then expected True
                     else make_unexpected error,
                 s1, log2 @ [redisCommand (SET key value)])))"
proof (intro conjI impI allI)
  assume c: "connect env s log = Inr (False, s1, log1)"
  then show "get env to_string i digest s log = Inr (make_unexpected error, s1, log1)"
    by (simp add: get_def)
  from c show "put env to_string digest value only_if_missing s log =
      Inr (make_unexpected error, s1, log1)"
    by (simp add: put_def)
  from c show "remove env to_string i digest s log = Inr (make_unexpected error, s1, log1)"
    by (simp add: remove_def)
next
  fix reply
  assume "connect env s log = Inr (True, s1, log1)"
    and "command_reply env (log1 @ [redisCommand (GET key)]) = Some reply \<and>
            rtype reply = REDIS_REPLY_STRING"
  then show "get env to_string i digest s log =
            Inr (expected (Some (str reply)), s1, log1 @ [redisCommand (GET key)])"
    by (simp add: get_def key Let_def)
next
  fix reply
  assume "connect env s log = Inr (True, s1, log1)"
    and "command_reply env (log1 @ [redisCommand (GET key)]) = Some reply \<and>
            rtype reply = REDIS_REPLY_NIL"
  then show "get env to_string i digest s log =
            Inr (expected None, s1, log1 @ [redisCommand (GET key)])"
    by (simp add: get_def key Let_def)
next
  fix reply
  assume "connect env s log = Inr (True, s1, log1)"
    and "command_reply env (log1 @ [redisCommand (DEL key)]) = Some reply \<and>
            rtype reply = REDIS_REPLY_INTEGER"
  then show "remove env to_string i digest s log =
            Inr (expected (0 < sint (integer reply)), s1, log1 @ [redisCommand (DEL key)])"
    by (simp add: remove_def key Let_def)
next
  fix reply
  assume "connect env s log = Inr (True, s1, log1)"
    and "command_reply env (log1 @ [redisCommand (EXISTS key)]) = Some reply \<and>
            rtype reply = REDIS_REPLY_INTEGER \<and> 0 < sint (ucast (integer reply) :: 32 word)"
  then show "put env to_string digest value True s log =
            Inr (expected False, s1, log1 @ [redisCommand (EXISTS key)])"
    by (simp add: put_def key Let_def)
next
  fix log2
  assume c: "connect env s log = Inr (True, s1, log1)"
    and l: "only_if_missing \<and> log2 = log1 @ [redisCommand (EXISTS key)] \<and>
                 (\<nexists>reply. command_reply env log2 = Some reply \<and>
                     rtype reply = REDIS_REPLY_INTEGER \<and>
                     0 < sint (ucast (integer reply) :: 32 word)) \<or>
                 \<not> only_if_missing \<and> log2 = log1"
  show "put env to_string digest value only_if_missing s log =
            Inr (case command_reply env (log2 @ [redisCommand (SET key value)]) of
                   None \<Rightarrow> make_unexpected error
                 | Some reply \<Rightarrow>
                     if rtype reply = REDIS_REPLY_STATUS then expected True
                     else make_unexpected error,
                 s1, log2 @ [redisCommand (SET key value)])"
  proof (cases only_if_missing)
    case False
    with c l show ?thesis
      by (simp add: put_def key Let_def split: option.split)
  next
    case True
    with l have log2: "log2 = log1 @ [redisCommand (EXISTS key)]"
      and n: "\<nexists>reply. command_reply env log2 = Some reply \<and>
                     rtype reply = REDIS_REPLY_INTEGER \<and>
                     0 < sint (ucast (integer reply) :: 32 word)"
      by blast+
    from n have count: "\<not> 0 < sint (case command_reply env log2 of
                                 None \<Rightarrow> 0
                               | Some reply \<Rightarrow>
                                   if rtype reply = REDIS_REPLY_ERROR then 0
                                   else if rtype reply = REDIS_REPLY_INTEGER
                                   then (ucast (integer reply) :: 32 word)
                                   else 0)"
      by (auto split: option.splits)
    from c True count show ?thesis
      unfolding log2
      by (simp add: put_def key Let_def split: option.split)
  qed
qed

theorem operation_results_witness:
  "connect (scripted_environment (Some \<lparr>err = 0\<rparr>) (\<lambda>c. Some (string_reply ''object'')))
     (constructed ''redis://localhost'' None None) [] =
     Inr (True,
          (constructed ''redis://localhost'' None None)
            \<lparr>m_context := Some \<lparr>err = 0\<rparr>, m_connected := True\<rparr>,
          [redisConnect ''localhost'' 6379]) \<and>
   command_reply (scripted_environment (Some \<lparr>err = 0\<rparr>) (\<lambda>c. Some (string_reply ''object'')))
     ([redisConnect ''localhost'' 6379] @ [redisCommand (GET ''ccache:0123'')]) =
     Some (string_reply ''object'') \<and>
   rtype (string_reply ''object'') = REDIS_REPLY_STRING \<and>
   get (scripted_environment (Some \<lparr>err = 0\<rparr>) (\<lambda>c. Some (string_reply ''object'')))
     (\<lambda>d. d) False ''0123'' (constructed ''redis://localhost'' None None) [] =
     Inr (expected (Some ''object''),
          (constructed ''redis://localhost'' None None)
            \<lparr>m_context := Some \<lparr>err = 0\<rparr>, m_connected := True\<rparr>,
          [redisConnect ''localhost'' 6379, redisCommand (GET ''ccache:0123'')]) \<and>
   connect (scripted_environment (Some \<lparr>err = 1\<rparr>) (\<lambda>c. None))
     (constructed ''redis://localhost'' None None) [] =
     Inr (False,
          (constructed ''redis://localhost'' None None)
            \<lparr>m_context := Some \<lparr>err = 1\<rparr>, m_invalid := True\<rparr>,
          [redisConnect ''localhost'' 6379]) \<and>
   remove (scripted_environment (Some \<lparr>err = 1\<rparr>) (\<lambda>c. None))
     (\<lambda>d. d) True ''0123'' (constructed ''redis://localhost'' None None) [] =
     Inr (make_unexpected error,
          (constructed ''redis://localhost'' None None)
            \<lparr>m_context := Some \<lparr>err = 1\<rparr>, m_invalid := True\<rparr>,
          [redisConnect ''localhost'' 6379])"
  using
    operation_results
      [of "''ccache:0123''" "\<lambda>d. d" "''0123''"
          "scripted_environment (Some \<lparr>err = 0\<rparr>) (\<lambda>c. Some (string_reply ''object''))"
          "constructed ''redis://localhost'' None None" "[]"
          "(constructed ''redis://localhost'' None None)
             \<lparr>m_context := Some \<lparr>err = 0\<rparr>, m_connected := True\<rparr>"
          "[redisConnect ''localhost'' 6379]" False "''object''" False]
    operation_results
      [of "''ccache:0123''" "\<lambda>d. d" "''0123''"
          "scripted_environment (Some \<lparr>err = 1\<rparr>) (\<lambda>c. None)"
          "constructed ''redis://localhost'' None None" "[]"
          "(constructed ''redis://localhost'' None None)
             \<lparr>m_context := Some \<lparr>err = 1\<rparr>, m_invalid := True\<rparr>"
          "[redisConnect ''localhost'' 6379]" True "''object''" False]
  by (simp add: connect_simps constructed_def get_key_string_def reply_simps)

text \<open>
  Against claim C1 as it was stated: the backend answers \<^verbatim>\<open>EXISTS\<close> with an error
  reply, and \<open>put\<close> goes on to \<^verbatim>\<open>SET\<close> and returns true, not a backend error.
\<close>

theorem exists_error_reply_counterexample:
  "command_reply
     (scripted_environment (Some \<lparr>err = 0\<rparr>)
        (\<lambda>c. case c of
                EXISTS k \<Rightarrow> Some (error_reply ''ERR'')
              | SET k v \<Rightarrow> Some (status_reply ''OK'')
              | _ \<Rightarrow> None))
     [redisConnect ''localhost'' 6379, redisCommand (EXISTS ''ccache:0123'')] =
     Some (error_reply ''ERR'') \<and>
   put (scripted_environment (Some \<lparr>err = 0\<rparr>)
          (\<lambda>c. case c of
                  EXISTS k \<Rightarrow> Some (error_reply ''ERR'')
                | SET k v \<Rightarrow> Some (status_reply ''OK'')
                | _ \<Rightarrow> None))
       (\<lambda>d. d) ''0123'' ''object'' True (constructed ''redis://localhost'' None None) [] =
     Inr (expected True,
          (constructed ''redis://localhost'' None None)
            \<lparr>m_context := Some \<lparr>err = 0\<rparr>, m_connected := True\<rparr>,
          [redisConnect ''localhost'' 6379,
           redisCommand (EXISTS ''ccache:0123''),
           redisCommand (SET ''ccache:0123'' ''object'')])"
  by (simp add: put_def connect_simps constructed_def get_key_string_def reply_simps)

subsection \<open>RedisStorage: the invalid state\<close>

text \<open>An object that is invalid and not connected stays so: \<open>connect\<close> returns false and calls nothing.\<close>

lemma connect_invalid_disconnected:
  assumes "m_invalid s" and "\<not> m_connected s"
  shows "connect env s log = Inr (False, s, log)"
  using assms by (simp add: connect_def)

text \<open>
  Claim C2 says that once \<^verbatim>\<open>m_invalid\<close> is set every later \<open>connect\<close> returns false and
  every later operation a backend error. The code breaks this after a failed
  authentication: \<^verbatim>\<open>m_connected\<close> is set before the password is sent and stays set, and
  \<open>connect\<close> tests \<^verbatim>\<open>m_connected\<close> before \<^verbatim>\<open>m_invalid\<close>. Here the object is constructed
  with a password, and the server accepts the connection, answers \<^verbatim>\<open>AUTH\<close> with an error and \<^verbatim>\<open>GET\<close> with a string. The first \<open>get\<close>
  returns a backend error and leaves the object invalid and connected; on that object
  \<open>connect\<close> returns true, and the second \<open>get\<close> sends its command and returns the value.
\<close>

theorem invalid_state_not_terminal:
  "RedisStorage_new ''redis://localhost'' [''password'' \<mapsto> ''secret''] =
     Inr (constructed ''redis://localhost'' None (Some ''secret'')) \<and>
   get (scripted_environment (Some \<lparr>err = 0\<rparr>)
          (\<lambda>c. case c of
                  AUTH u p \<Rightarrow> Some (error_reply ''ERR AUTH'')
                | GET k \<Rightarrow> Some (string_reply ''object'')
                | _ \<Rightarrow> None))
       (\<lambda>d. d) False ''0123'' (constructed ''redis://localhost'' None (Some ''secret'')) [] =
     Inr (make_unexpected error,
          (constructed ''redis://localhost'' None (Some ''secret''))
            \<lparr>m_context := Some \<lparr>err = 0\<rparr>, m_connected := True, m_invalid := True\<rparr>,
          [redisConnect ''localhost'' 6379, redisCommand (AUTH None ''secret'')]) \<and>
   connect (scripted_environment (Some \<lparr>err = 0\<rparr>)
          (\<lambda>c. case c of
                  AUTH u p \<Rightarrow> Some (error_reply ''ERR AUTH'')
                | GET k \<Rightarrow> Some (string_reply ''object'')
                | _ \<Rightarrow> None))
       ((constructed ''redis://localhost'' None (Some ''secret''))
            \<lparr>m_context := Some \<lparr>err = 0\<rparr>, m_connected := True, m_invalid := True\<rparr>)
       [redisConnect ''localhost'' 6379, redisCommand (AUTH None ''secret'')] =
     Inr (True,
          (constructed ''redis://localhost'' None (Some ''secret''))
            \<lparr>m_context := Some \<lparr>err = 0\<rparr>, m_connected := True, m_invalid := True\<rparr>,
          [redisConnect ''localhost'' 6379, redisCommand (AUTH None ''secret'')]) \<and>
   get (scripted_environment (Some \<lparr>err = 0\<rparr>)
          (\<lambda>c. case c of
                  AUTH u p \<Rightarrow> Some (error_reply ''ERR AUTH'')
                | GET k \<Rightarrow> Some (string_reply ''object'')
                | _ \<Rightarrow> None))
       (\<lambda>d. d) False ''0123''
       ((constructed ''redis://localhost'' None (Some ''secret''))
            \<lparr>m_context := Some \<lparr>err = 0\<rparr>, m_connected := True, m_invalid := True\<rparr>)
       [redisConnect ''localhost'' 6379, redisCommand (AUTH None ''secret'')] =
     Inr (expected (Some ''object''),
          (constructed ''redis://localhost'' None (Some ''secret''))
            \<lparr>m_context := Some \<lparr>err = 0\<rparr>, m_connected := True, m_invalid := True\<rparr>,
          [redisConnect ''localhost'' 6379, redisCommand (AUTH None ''secret''),
           redisCommand (GET ''ccache:0123'')])"
  by (simp add: get_def connect_simps constructed_def get_key_string_def reply_simps new_simps)

lemma connect_established_invalid:
  assumes "\<not> m_invalid s"
    and "connect_established env s log = Inr (r, s', log')"
    and "m_invalid s'"
  shows "\<not> r \<and>
    ((case m_context s of None \<Rightarrow> True | Some context \<Rightarrow> err context \<noteq> 0) \<and>
        m_context s' = m_context s \<and> log' = log \<or>
     (\<exists>password. m_password s = Some password \<and>
        (\<exists>log1. log' = log1 @ [redisCommand (AUTH (m_username s) password)]) \<and>
        (case command_reply env log' of
           None \<Rightarrow> True
         | Some reply \<Rightarrow> rtype reply = REDIS_REPLY_ERROR)))"
  using assms
  by (auto simp add: connect_established_def Let_def split: option.splits if_splits)

lemma connect_new_invalid:
  assumes "\<not> m_invalid s"
    and "connect_new env s log = Inr (r, s', log')"
    and "m_invalid s'"
  shows "\<not> r \<and>
    ((case split_url_suffix (drop (length ''redis://'') (m_url s)) of
        (host, port, sock) \<Rightarrow> host = [] \<and> sock = []) \<and> log' = log \<or>
     (case connect_result env log' of None \<Rightarrow> True | Some context \<Rightarrow> err context \<noteq> 0) \<and>
        m_context s' = connect_result env log' \<or>
     (\<exists>password. m_password s = Some password \<and>
        (\<exists>log1. log' = log1 @ [redisCommand (AUTH (m_username s) password)]) \<and>
        (case command_reply env log' of
           None \<Rightarrow> True
         | Some reply \<Rightarrow> rtype reply = REDIS_REPLY_ERROR)))"
proof (cases "split_url_suffix (drop (length ''redis://'') (m_url s))")
  case (fields host port sock)
  show ?thesis
  proof (cases "host = []")
    case True
    note host = this
    show ?thesis
    proof (cases "sock = []")
      case True
      with host fields assms show ?thesis
        by (auto simp add: connect_new_def split: if_splits)
    next
      case False
      define log1 where "log1 = log @ [case m_connect_timeout s of
                                   Some tv \<Rightarrow> redisConnectUnixWithTimeout sock tv
                                 | None \<Rightarrow> redisConnectUnix sock]"
      from False host fields assms(2)
      have e: "connect_established env (s\<lparr>m_context := connect_result env log1\<rparr>) log1 = Inr (r, s', log')"
        by (simp add: connect_new_def log1_def Let_def split: if_splits)
      from connect_established_invalid [OF _ e assms(3)] assms(1)
      show ?thesis
        by (auto simp add: fields host False)
    qed
  next
    case False
    then obtain p where p: "(if port = [] then Inr 6379 else stoi port) = Inr p"
      using fields assms(2)
      by (cases "if port = [] then Inr 6379 else stoi port")
        (auto simp add: connect_new_def split: if_splits)
    define log1 where "log1 = log @ [case m_connect_timeout s of
                                       Some tv \<Rightarrow> redisConnectWithTimeout host p tv
                                     | None \<Rightarrow> redisConnect host p]"
    from False fields assms(2) p
    have e: "connect_established env (s\<lparr>m_context := connect_result env log1\<rparr>) log1 = Inr (r, s', log')"
      by (simp add: connect_new_def log1_def Let_def split: if_splits)
    from connect_established_invalid [OF _ e assms(3)] assms(1)
    show ?thesis
      by (auto simp add: fields False)
  qed
qed

text \<open>
  Claim C3, as the code has it by design. \<open>connect\<close> puts an object that was not invalid
  into the invalid state only when the URL has neither a host nor a socket path, when
  the new connection fails (the connection attempt, the last call, returned no context or
  one that reports an error), or when the authentication fails (a null or error reply to the \<^verbatim>\<open>AUTH\<close> it sent
  last); it then returns false. \<open>disconnect\<close> leaves the object disconnected, keeps its
  context and does not touch \<^verbatim>\<open>m_invalid\<close>; from that state a later \<open>connect\<close> retries
  with \<^verbatim>\<open>redisReconnect\<close> and is connected again when that succeeds.
\<close>

theorem invalid_state_causes:
  "(\<not> m_invalid s \<and> connect env s log = Inr (r, s', log') \<and> m_invalid s' \<longrightarrow>
      \<not> r \<and>
      ((case split_url_suffix (drop (length ''redis://'') (m_url s)) of
          (host, port, sock) \<Rightarrow> host = [] \<and> sock = []) \<or>
       (case connect_result env log' of None \<Rightarrow> True | Some context \<Rightarrow> err context \<noteq> 0) \<and>
          m_context s' = connect_result env log' \<or>
       (\<exists>password. m_password s = Some password \<and>
          (\<exists>log1. log' = log1 @ [redisCommand (AUTH (m_username s) password)]) \<and>
          (case command_reply env log' of
             None \<Rightarrow> True
           | Some reply \<Rightarrow> rtype reply = REDIS_REPLY_ERROR)))) \<and>
   (m_invalid (disconnect s) = m_invalid s \<and> \<not> m_connected (disconnect s) \<and>
    m_context (disconnect s) = m_context s) \<and>
   (\<not> m_connected s \<and> \<not> m_invalid s \<and> m_context s = Some context \<and>
    reconnect_result env (log @ [redisReconnect]) = REDIS_OK \<longrightarrow>
      connect env s log = Inr (True, s\<lparr>m_connected := True\<rparr>, log @ [redisReconnect]))"
proof (intro conjI impI)
  assume a: "\<not> m_invalid s \<and> connect env s log = Inr (r, s', log') \<and> m_invalid s'"
  then have inv: "\<not> m_invalid s" and c: "connect env s log = Inr (r, s', log')"
    and inv': "m_invalid s'"
    by simp_all
  have nc: "\<not> m_connected s"
    using c inv inv' by (auto simp add: connect_def)
  show "\<not> r"
  proof (cases "m_context s")
    case None
    with c inv nc have "connect_new env s log = Inr (r, s', log')"
      by (simp add: connect_def)
    from connect_new_invalid [OF inv this inv'] show ?thesis by simp
  next
    case (Some ctx)
    show ?thesis
    proof (cases "reconnect_result env (log @ [redisReconnect]) = REDIS_OK")
      case True
      with c inv nc Some inv' show ?thesis
        by (auto simp add: connect_def Let_def)
    next
      case False
      with c inv nc Some
      have "connect_new env (s\<lparr>m_context := None\<rparr>) (log @ [redisReconnect] @ [redisFree]) =
          Inr (r, s', log')"
        by (simp add: connect_def Let_def)
      from connect_new_invalid [OF _ this inv'] inv show ?thesis by simp
    qed
  qed
  show "(case split_url_suffix (drop (length ''redis://'') (m_url s)) of
          (host, port, sock) \<Rightarrow> host = [] \<and> sock = []) \<or>
       (case connect_result env log' of None \<Rightarrow> True | Some context \<Rightarrow> err context \<noteq> 0) \<and>
          m_context s' = connect_result env log' \<or>
       (\<exists>password. m_password s = Some password \<and>
          (\<exists>log1. log' = log1 @ [redisCommand (AUTH (m_username s) password)]) \<and>
          (case command_reply env log' of
             None \<Rightarrow> True
           | Some reply \<Rightarrow> rtype reply = REDIS_REPLY_ERROR))"
  proof (cases "m_context s")
    case None
    with c inv nc have "connect_new env s log = Inr (r, s', log')"
      by (simp add: connect_def)
    from connect_new_invalid [OF inv this inv'] show ?thesis by auto
  next
    case (Some ctx)
    show ?thesis
    proof (cases "reconnect_result env (log @ [redisReconnect]) = REDIS_OK")
      case True
      with c inv nc Some inv' show ?thesis
        by (auto simp add: connect_def Let_def)
    next
      case False
      with c inv nc Some
      have "connect_new env (s\<lparr>m_context := None\<rparr>) (log @ [redisReconnect] @ [redisFree]) =
          Inr (r, s', log')"
        by (simp add: connect_def Let_def)
      from connect_new_invalid [OF _ this inv'] inv show ?thesis by auto
    qed
  qed
next
  show "m_invalid (disconnect s) = m_invalid s" by (simp add: disconnect_def)
  show "\<not> m_connected (disconnect s)" by (simp add: disconnect_def)
  show "m_context (disconnect s) = m_context s" by (simp add: disconnect_def)
next
  assume "\<not> m_connected s \<and> \<not> m_invalid s \<and> m_context s = Some context \<and>
    reconnect_result env (log @ [redisReconnect]) = REDIS_OK"
  then show "connect env s log = Inr (True, s\<lparr>m_connected := True\<rparr>, log @ [redisReconnect])"
    by (simp add: connect_def Let_def)
qed

theorem invalid_state_causes_witness:
  "\<not> m_invalid (constructed ''redis://localhost'' None (Some ''secret'')) \<and>
   connect (scripted_environment (Some \<lparr>err = 0\<rparr>) (\<lambda>c. Some (error_reply ''ERR AUTH'')))
     (constructed ''redis://localhost'' None (Some ''secret'')) [] =
     Inr (False,
          (constructed ''redis://localhost'' None (Some ''secret''))
            \<lparr>m_context := Some \<lparr>err = 0\<rparr>, m_connected := True, m_invalid := True\<rparr>,
          [redisConnect ''localhost'' 6379, redisCommand (AUTH None ''secret'')]) \<and>
   m_password (constructed ''redis://localhost'' None (Some ''secret'')) = Some ''secret'' \<and>
   command_reply (scripted_environment (Some \<lparr>err = 0\<rparr>) (\<lambda>c. Some (error_reply ''ERR AUTH'')))
     [redisConnect ''localhost'' 6379, redisCommand (AUTH None ''secret'')] =
     Some (error_reply ''ERR AUTH'') \<and>
   connect (scripted_environment None (\<lambda>c. None))
     (disconnect ((constructed ''redis://localhost'' None None)
                    \<lparr>m_context := Some \<lparr>err = 0\<rparr>, m_connected := True\<rparr>))
     [redisConnect ''localhost'' 6379] =
     Inr (True,
          (constructed ''redis://localhost'' None None)
            \<lparr>m_context := Some \<lparr>err = 0\<rparr>, m_connected := True\<rparr>,
          [redisConnect ''localhost'' 6379, redisReconnect])"
  using
    invalid_state_causes
      [of "constructed ''redis://localhost'' None (Some ''secret'')"
          "scripted_environment (Some \<lparr>err = 0\<rparr>) (\<lambda>c. Some (error_reply ''ERR AUTH''))" "[]" False
          "(constructed ''redis://localhost'' None (Some ''secret''))
             \<lparr>m_context := Some \<lparr>err = 0\<rparr>, m_connected := True, m_invalid := True\<rparr>"
          "[redisConnect ''localhost'' 6379, redisCommand (AUTH None ''secret'')]"
          "\<lparr>err = 0\<rparr>"]
    invalid_state_causes
      [of "disconnect ((constructed ''redis://localhost'' None None)
                    \<lparr>m_context := Some \<lparr>err = 0\<rparr>, m_connected := True\<rparr>)"
          "scripted_environment None (\<lambda>c. None)" "[redisConnect ''localhost'' 6379]" True
          "(constructed ''redis://localhost'' None None)
             \<lparr>m_context := Some \<lparr>err = 0\<rparr>, m_connected := True\<rparr>"
          "[redisConnect ''localhost'' 6379, redisReconnect]"
          "\<lparr>err = 0\<rparr>"]
  by (simp add: connect_simps constructed_def reply_simps disconnect_def)

text \<open>
  Against claim C3 as it was stated: an ordinary failed connection attempt (the server
  refuses the connection) leaves the object invalid, not disconnected, and a later
  \<open>connect\<close> makes no attempt, even at a server that would now accept it.
\<close>

theorem failed_connection_attempt_counterexample:
  "RedisStorage_new ''redis://localhost'' Map.empty =
     Inr \<lparr>m_url = ''redis://localhost'', m_connect_timeout = None, m_operation_timeout = None,
          m_username = None, m_password = None, m_context = None,
          m_connected = False, m_invalid = False\<rparr> \<and>
   connect (scripted_environment (Some \<lparr>err = 1\<rparr>) (\<lambda>c. None))
     \<lparr>m_url = ''redis://localhost'', m_connect_timeout = None, m_operation_timeout = None,
      m_username = None, m_password = None, m_context = None,
      m_connected = False, m_invalid = False\<rparr> [] =
     Inr (False,
          \<lparr>m_url = ''redis://localhost'', m_connect_timeout = None, m_operation_timeout = None,
           m_username = None, m_password = None, m_context = Some \<lparr>err = 1\<rparr>,
           m_connected = False, m_invalid = True\<rparr>,
          [redisConnect ''localhost'' 6379]) \<and>
   connect (scripted_environment (Some \<lparr>err = 0\<rparr>) (\<lambda>c. None))
     \<lparr>m_url = ''redis://localhost'', m_connect_timeout = None, m_operation_timeout = None,
      m_username = None, m_password = None, m_context = Some \<lparr>err = 1\<rparr>,
      m_connected = False, m_invalid = True\<rparr> [redisConnect ''localhost'' 6379] =
     Inr (False,
          \<lparr>m_url = ''redis://localhost'', m_connect_timeout = None, m_operation_timeout = None,
           m_username = None, m_password = None, m_context = Some \<lparr>err = 1\<rparr>,
           m_connected = False, m_invalid = True\<rparr>,
          [redisConnect ''localhost'' 6379])"
  by (simp add: connect_simps new_simps)

subsection \<open>RedisStorage: construction\<close>

lemma connect_invalid_url:
  assumes "\<not> m_connected s" and "\<not> m_invalid s" and "m_context s = None"
    and "m_url s = ''redis://'' @ rest"
    and "case split_url_suffix rest of (host, port, sock) \<Rightarrow> host = [] \<and> sock = []"
  shows "connect env s log = Inr (False, s\<lparr>m_invalid := True\<rparr>, log)"
  using assms by (auto simp add: connect_def connect_new_def starts_with_def split: prod.splits)

text \<open>
  Claim C7, as the code has it by design. Construction looks at the values of the two
  timeouts and at nothing else: without them it succeeds for every URL and every
  attribute map, whatever other names the map holds, and takes user name and password
  from it; it fails exactly when the value of a timeout is not a number that
  \<^verbatim>\<open>std::stoi\<close> accepts. The URL is read by \<open>connect\<close>, in the first operation: when it
  has neither host nor socket path after its prefix, that operation returns a backend
  error, makes no call to the library and leaves the object invalid.
\<close>

theorem construction_checks_timeouts_only:
  "(attributes ''connect-timeout'' = None \<and> attributes ''operation-timeout'' = None \<longrightarrow>
      RedisStorage_new url attributes =
        Inr (constructed url (attributes ''username'') (attributes ''password''))) \<and>
   ((\<exists>e. RedisStorage_new url attributes = Inl e) \<longleftrightarrow>
      (\<exists>msec e. (attributes ''connect-timeout'' = Some msec \<or>
                 attributes ''operation-timeout'' = Some msec) \<and> stoi msec = Inl e)) \<and>
   (RedisStorage_new (''redis://'' @ rest) attributes = Inr s \<and>
    (case split_url_suffix rest of (host, port, sock) \<Rightarrow> host = [] \<and> sock = []) \<longrightarrow>
      get env to_string i digest s log =
        Inr (make_unexpected error, s\<lparr>m_invalid := True\<rparr>, log) \<and>
      put env to_string digest value only_if_missing s log =
        Inr (make_unexpected error, s\<lparr>m_invalid := True\<rparr>, log) \<and>
      remove env to_string i digest s log =
        Inr (make_unexpected error, s\<lparr>m_invalid := True\<rparr>, log))"
proof (intro conjI impI)
  assume "attributes ''connect-timeout'' = None \<and> attributes ''operation-timeout'' = None"
  then show "RedisStorage_new url attributes =
        Inr (constructed url (attributes ''username'') (attributes ''password''))"
    by (simp add: new_simps constructed_def)
next
  show "(\<exists>e. RedisStorage_new url attributes = Inl e) \<longleftrightarrow>
      (\<exists>msec e. (attributes ''connect-timeout'' = Some msec \<or>
                 attributes ''operation-timeout'' = Some msec) \<and> stoi msec = Inl e)"
    by (auto simp add: new_simps milliseconds_to_timeval_def split: option.splits sum.splits)
next
  assume a: "RedisStorage_new (''redis://'' @ rest) attributes = Inr s \<and>
    (case split_url_suffix rest of (host, port, sock) \<Rightarrow> host = [] \<and> sock = [])"
  then have s: "\<not> m_connected s" "\<not> m_invalid s" "m_context s = None"
    "m_url s = ''redis://'' @ rest"
    by (auto simp add: new_simps split: option.splits sum.splits)
  from a have u: "case split_url_suffix rest of (host, port, sock) \<Rightarrow> host = [] \<and> sock = []"
    by simp
  have c: "connect env s log = Inr (False, s\<lparr>m_invalid := True\<rparr>, log)"
    by (rule connect_invalid_url [OF s u])
  show "get env to_string i digest s log =
        Inr (make_unexpected error, s\<lparr>m_invalid := True\<rparr>, log)"
    by (simp add: get_def c)
  show "put env to_string digest value only_if_missing s log =
        Inr (make_unexpected error, s\<lparr>m_invalid := True\<rparr>, log)"
    by (simp add: put_def c)
  show "remove env to_string i digest s log =
        Inr (make_unexpected error, s\<lparr>m_invalid := True\<rparr>, log)"
    by (simp add: remove_def c)
qed

theorem construction_checks_timeouts_only_witness:
  "[''bogus'' \<mapsto> ''1''] ''connect-timeout'' = None \<and>
   [''bogus'' \<mapsto> ''1''] ''operation-timeout'' = None \<and>
   RedisStorage_new ''redis://:6379'' [''bogus'' \<mapsto> ''1''] =
     Inr (constructed ''redis://:6379'' None None) \<and>
   (case split_url_suffix '':6379'' of (host, port, sock) \<Rightarrow> host = [] \<and> sock = []) \<and>
   put (scripted_environment (Some \<lparr>err = 0\<rparr>) (\<lambda>c. None)) (\<lambda>d. d) ''0123'' ''object'' False
       (constructed ''redis://:6379'' None None) [] =
     Inr (make_unexpected error, (constructed ''redis://:6379'' None None)\<lparr>m_invalid := True\<rparr>, [])"
  using construction_checks_timeouts_only
    [of "[''bogus'' \<mapsto> ''1'']" "''redis://:6379''" "'':6379''" "constructed ''redis://:6379'' None None"
        "scripted_environment (Some \<lparr>err = 0\<rparr>) (\<lambda>c. None)" "\<lambda>d. d" False "''0123''" "[]"
        "''object''" False]
  by (simp add: split_url_suffix_def)

text \<open>
  Against claim C7 as it was stated: construction accepts an attribute that is not
  recognised together with a URL that has neither host nor socket path, and it is the
  first \<open>get\<close> that finds the URL unusable.
\<close>

theorem construction_accepts_anything_counterexample:
  "RedisStorage_new ''redis://'' [''bogus'' \<mapsto> ''1''] = Inr (constructed ''redis://'' None None) \<and>
   get (scripted_environment (Some \<lparr>err = 0\<rparr>) (\<lambda>c. None)) (\<lambda>d. d) False ''0123''
       (constructed ''redis://'' None None) [] =
     Inr (make_unexpected error, (constructed ''redis://'' None None)\<lparr>m_invalid := True\<rparr>, [])"
  by (simp add: new_simps constructed_def get_def connect_simps)

subsection \<open>HashState\<close>

declare absorb_blocks.simps [simp del]

lemma absorb_blocks_append:
  "absorb_blocks a c (xs @ ys) =
     (case absorb_blocks a c xs of (c', rest) \<Rightarrow> absorb_blocks a c' (rest @ ys))"
proof (induction a c xs rule: absorb_blocks.induct)
  case (1 a c bytes)
  show ?case
  proof (cases "0 < block_size a \<and> block_size a \<le> length bytes")
    case True
    then have "absorb_blocks a c (bytes @ ys) =
        absorb_blocks a (compress a c (take (block_size a) bytes)) (drop (block_size a) bytes @ ys)"
      by (subst absorb_blocks.simps) simp
    also have "\<dots> = (case absorb_blocks a (compress a c (take (block_size a) bytes))
                            (drop (block_size a) bytes) of
                       (c', rest) \<Rightarrow> absorb_blocks a c' (rest @ ys))"
      using True by (rule "1.IH")
    also have "absorb_blocks a (compress a c (take (block_size a) bytes)) (drop (block_size a) bytes) =
        absorb_blocks a c bytes"
      using True by (subst (2) absorb_blocks.simps) simp
    finally show ?thesis .
  next
    case False
    then have "absorb_blocks a c bytes = (c, bytes)"
      by (subst absorb_blocks.simps) auto
    then show ?thesis by simp
  qed
qed

lemma absorb_absorb: "absorb (absorb h A) B = absorb h (A @ B)"
  by (simp add: absorb_def absorb_blocks_append [of _ _ "pending h @ A" B, simplified]
      split: prod.split)

lemma absorb_hash_init_Nil: "absorb (hash_init a) [] = hash_init a"
proof -
  have "absorb_blocks a (initial_value a) [] = (initial_value a, [])"
    by (subst absorb_blocks.simps) auto
  then show ?thesis
    by (simp add: absorb_def hash_init_def)
qed

lemma foldl_absorb_absorb: "foldl absorb (absorb h A) chunks = absorb h (A @ concat chunks)"
proof (induction chunks arbitrary: A)
  case Nil
  show ?case by simp
next
  case (Cons B chunks)
  have "foldl absorb (absorb h A) (B # chunks) = foldl absorb (absorb h (A @ B)) chunks"
    by (simp add: absorb_absorb)
  also have "\<dots> = absorb h ((A @ B) @ concat chunks)"
    by (rule Cons.IH)
  finally show ?case by simp
qed

text \<open>
  Claim C4. A HashState that absorbs \<open>A @ B\<close> in one call finalizes to the same digest as
  one that absorbs \<open>A\<close> and then \<open>B\<close>; and a new HashState that absorbs a sequence of
  chunks one by one finalizes to the digest of their concatenation absorbed at once, so
  that the digest depends on the bytes alone and not on how the calls cut them.
\<close>

theorem digest_independent_of_chunking:
  "fst (finalize (absorb h (A @ B))) = fst (finalize (absorb (absorb h A) B)) \<and>
   fst (finalize (foldl absorb (hash_init a) chunks)) =
     fst (finalize (absorb (hash_init a) (concat chunks)))"
proof
  show "fst (finalize (absorb h (A @ B))) = fst (finalize (absorb (absorb h A) B))"
    by (simp only: absorb_absorb)
  have "foldl absorb (hash_init a) chunks = foldl absorb (absorb (hash_init a) []) chunks"
    by (simp only: absorb_hash_init_Nil)
  also have "\<dots> = absorb (hash_init a) (concat chunks)"
    by (simp only: foldl_absorb_absorb append_Nil)
  finally show "fst (finalize (foldl absorb (hash_init a) chunks)) =
     fst (finalize (absorb (hash_init a) (concat chunks)))"
    by simp
qed

text \<open>
  Claim C5. \<open>finalize\<close> returns the state as it was, so that a second \<open>finalize\<close> returns
  the same digest as the first, and bytes absorbed after a \<open>finalize\<close> combine with the
  earlier ones as if it had not been called: absorbing \<open>A\<close>, finalizing, absorbing \<open>B\<close>
  and finalizing gives the digest of \<open>A @ B\<close>.
\<close>

theorem finalize_idempotent:
  "snd (finalize h) = h \<and>
   fst (finalize (snd (finalize h))) = fst (finalize h) \<and>
   finalize (absorb (snd (finalize h)) bytes) = finalize (absorb h bytes) \<and>
   fst (finalize (absorb (snd (finalize (absorb h A))) B)) = fst (finalize (absorb h (A @ B)))"
proof -
  have unchanged: "snd (finalize g) = g" for g :: "'a HashState"
    by (simp add: finalize_def)
  show ?thesis
    by (simp only: unchanged absorb_absorb simp_thms)
qed

end
